theory Spec2Isabelle
  imports Main "HOL-Library.Char_ord" "HOL-Library.List_Lexorder" "HOL-Library.Multiset"
begin

section \<open>The error taxonomy (error.go)\<close>

text \<open>
  Go strings are byte sequences: they are modelled as \<open>string\<close> (a list of
  \<open>char\<close>, one per byte). \<open>NotFound\<close> is the struct of error.go.
\<close>

record NotFound =
  Pkg :: string
  Sym :: string

text \<open>
  Results of fallible operations are sums: \<open>Inl\<close> carries either the ordinary
  error value \<open>NotFound\<close> or one of the run-time panics the source can raise
  (an index out of range, a failed type assertion, a method call on a nil
  interface value, a panic inside package reflect, the process exit of
  \<open>log.Fatal\<close>).
\<close>

datatype failure =
    NotFoundErr NotFound
  | IndexOutOfRange
  | TypeAssertion
  | NilDereference
  | ReflectPanic
  | Fatal

text \<open>
  \<open>NotFound.Error\<close>. The receiver is a copy, whose two fields are overwritten
  one after the other before they are joined. The verb \<open>%q\<close> of
  \<open>fmt.Sprintf\<close> (strconv's quoting of a string) belongs to the Go library
  and is the parameter \<open>q\<close>.
\<close>

definition NotFound_Error :: "(string \<Rightarrow> string) \<Rightarrow> NotFound \<Rightarrow> string" where
  "NotFound_Error q nf =
     (let nf1 = (if length (Pkg nf) > 0
                 then nf\<lparr>Pkg := ''package '' @ q (Pkg nf) @ '': ''\<rparr> else nf);
          nf2 = (if length (Sym nf1) > 0
                 then nf1\<lparr>Sym := ''symbol '' @ q (Sym nf1) @ '': ''\<rparr> else nf1)
      in concat [Pkg nf2, Sym nf2, ''not found''])"

text \<open>
  A quoting function for evaluating examples: the Go quoting of a string of
  printable ASCII characters other than the double quote and the backslash
  puts it between double quotes.
\<close>

definition quote_plain :: "string \<Rightarrow> string" where
  "quote_plain s = CHR 0x22 # s @ [CHR 0x22]"

section \<open>Symbols (symbol.go)\<close>

text \<open>
  A value of type \<open>interface{}\<close> is the nil interface, a pointer (nil, or the
  address of a variable in the store) or any other dynamic value, of the type
  parameter \<open>'v\<close>.
\<close>

datatype 'v iface =
    Nil
  | Pointer "nat option"
  | Val 'v

datatype 'v Const = Const (Const_name: string) (Const_value: "'v iface")

definition MakeConst :: "string \<Rightarrow> 'v iface \<Rightarrow> 'v Const" where
  "MakeConst name v = Const name v"

datatype 'v Func = Func (Func_name: string) (Func_fval: "'v iface")

definition MakeFunc :: "string \<Rightarrow> 'v iface \<Rightarrow> 'v Func" where
  "MakeFunc name fval = Func name fval"

text \<open>
  The field \<open>rtyp\<close> holds a \<open>reflect.Type\<close>, itself an interface value.
  (\<open>MakeType\<close> computes it by reflection from a pointer; the properties below
  start from a \<open>Type\<close> value.)
\<close>

datatype 'v Type = Type (Type_name: string) (Type_rtyp: "'v iface")

datatype 'v Var = Var (Var_name: string) (Var_addr: "'v iface")

text \<open>
  The interface \<open>Symbol\<close> asks for the methods \<open>Name\<close> and \<open>Get\<close>. The package
  declares both on \<open>Const\<close>, \<open>Func\<close> and \<open>Type\<close>; these are the values a
  \<open>Symbol\<close> can hold here, and their \<open>Name\<close> and \<open>Get\<close> read a field.
  (\<open>Var\<close> declares \<open>Get\<close> and \<open>Set\<close> only, see the method sets below.)
\<close>

datatype 'v Symbol =
    SymConst "'v Const"
  | SymFunc "'v Func"
  | SymType "'v Type"

fun Symbol_Name :: "'v Symbol \<Rightarrow> string" where
  "Symbol_Name (SymConst c) = Const_name c"
| "Symbol_Name (SymFunc f) = Func_name f"
| "Symbol_Name (SymType t) = Type_name t"

fun Symbol_Get :: "'v Symbol \<Rightarrow> 'v iface" where
  "Symbol_Get (SymConst c) = Const_value c"
| "Symbol_Get (SymFunc f) = Func_fval f"
| "Symbol_Get (SymType t) = Type_rtyp t"

text \<open>
  The struct \<open>Symbols\<close>: \<open>names\<close> is a Go map, \<open>None\<close> when it is nil; \<open>slice\<close>
  is a Go slice (the nil slice and the empty slice are both \<open>[]\<close>: the code only
  takes its length, appends to it and indexes it). The mutex serialises the
  calls; each call is modelled as one atomic step.
\<close>

record 'v Symbols =
  names :: "(string \<rightharpoonup> nat) option"
  slice :: "'v Symbol list"

definition zero_Symbols :: "'v Symbols" where
  "zero_Symbols = \<lparr>names = None, slice = []\<rparr>"

text \<open>Reading a Go map, nil or not: \<open>i, ok := m[k]\<close>.\<close>

definition map_index :: "(string \<rightharpoonup> nat) option \<Rightarrow> string \<Rightarrow> nat option" where
  "map_index m k = (case m of None \<Rightarrow> None | Some f \<Rightarrow> f k)"

text \<open>
  The capacity is an allocation hint only: both branches give an empty map and
  an empty slice. (A capacity too large to allocate is not modelled.)
\<close>

definition MakeSymbols :: "int \<Rightarrow> 'v Symbols" where
  "MakeSymbols capacity =
     (if capacity < 0 then \<lparr>names = Some Map.empty, slice = []\<rparr>
      else \<lparr>names = Some Map.empty, slice = []\<rparr>)"

definition Symbols_Lookup :: "string \<Rightarrow> 'v Symbols \<Rightarrow> failure + 'v Symbol" where
  "Symbols_Lookup name syms =
     (if names syms = None then Inl (NotFoundErr \<lparr>Pkg = [], Sym = name\<rparr>)
      else case map_index (names syms) name of
             None \<Rightarrow> Inl (NotFoundErr \<lparr>Pkg = [], Sym = name\<rparr>)
           | Some i \<Rightarrow>
               if i < length (slice syms) then Inr (slice syms ! i)
               else Inl IndexOutOfRange)"

text \<open>
  \<open>Add\<close>. An argument of type \<open>Symbol\<close> is an interface value: nil (\<open>None\<close>)
  or a symbol. After the nil check of the map the map is a real map; the loop
  works on the map and the slice. A name that is already a key is skipped.
  On a nil argument the call \<open>s.Name()\<close> panics: the loop ends there, and the
  collection stays as the iterations before have left it (the receiver is a
  pointer). The result is the panic, if any, and the collection after the
  call.
\<close>

definition Add_step ::
  "(string \<rightharpoonup> nat) \<times> 'v Symbol list \<Rightarrow> 'v Symbol \<Rightarrow> (string \<rightharpoonup> nat) \<times> 'v Symbol list" where
  "Add_step st s =
     (let name = Symbol_Name s in
      case fst st name of
        Some _ \<Rightarrow> st
      | None \<Rightarrow> ((fst st)(name \<mapsto> length (snd st)), snd st @ [s]))"

fun Add_loop ::
  "(string \<rightharpoonup> nat) \<times> 'v Symbol list \<Rightarrow> 'v Symbol option list
   \<Rightarrow> failure option \<times> (string \<rightharpoonup> nat) \<times> 'v Symbol list" where
  "Add_loop st [] = (None, st)"
| "Add_loop st (None # ss) = (Some NilDereference, st)"
| "Add_loop st (Some s # ss) = Add_loop (Add_step st s) ss"

definition Symbols_Add ::
  "'v Symbol option list \<Rightarrow> 'v Symbols \<Rightarrow> failure option \<times> 'v Symbols" where
  "Symbols_Add ss syms =
     (let st0 = (case names syms of None \<Rightarrow> (Map.empty, []) | Some f \<Rightarrow> (f, slice syms));
          r = Add_loop st0 ss
      in (fst r, \<lparr>names = Some (fst (snd r)), slice = snd (snd r)\<rparr>))"

text \<open>
  The invariant of a collection: the map sends a name to an index exactly when
  the record at that index has that name, and no two records share a name. On
  a nil map every lookup misses.
\<close>

definition Symbols_inv :: "'v Symbols \<Rightarrow> bool" where
  "Symbols_inv syms =
     ((\<forall>n i. map_index (names syms) n = Some i \<longleftrightarrow>
             (i < length (slice syms) \<and> Symbol_Name (slice syms ! i) = n))
      \<and> distinct (map Symbol_Name (slice syms)))"

definition pair_inv :: "(string \<rightharpoonup> nat) \<times> 'v Symbol list \<Rightarrow> bool" where
  "pair_inv st =
     ((\<forall>n i. fst st n = Some i \<longleftrightarrow> (i < length (snd st) \<and> Symbol_Name (snd st ! i) = n))
      \<and> distinct (map Symbol_Name (snd st)))"

text \<open>
  The public operations on a collection, and a sequence of calls. \<open>Lookup\<close>
  only reads: the collection after the call is the collection before it. After
  an \<open>Add\<close>, panicking or not, the sequence goes on from the collection that
  the call has left.
\<close>

datatype 'v op = OpAdd "'v Symbol option list" | OpLookup string

fun apply_op :: "'v Symbols \<Rightarrow> 'v op \<Rightarrow> 'v Symbols" where
  "apply_op syms (OpAdd ss) = snd (Symbols_Add ss syms)"
| "apply_op syms (OpLookup name) = syms"

definition run_ops :: "'v op list \<Rightarrow> 'v Symbols \<Rightarrow> 'v Symbols" where
  "run_ops ops syms = foldl apply_op syms ops"

subsection \<open>Variables\<close>

text \<open>
  \<open>Var.Get\<close> and \<open>Var.Set\<close> go through package reflect to the variable that
  \<open>addr\<close> points to. The store gives every address a variable: its content, and
  \<open>assignTo\<close>, the check of \<open>reflect.Value.Set\<close> for the variable's type, which
  returns the value as the variable then holds it, or \<open>None\<close> where \<open>Set\<close>
  panics because the value is not assignable to that type.

  \<open>reflect.ValueOf(addr).Elem()\<close> panics unless \<open>addr\<close> is a pointer;
  on a nil pointer it returns the zero Value, on which both \<open>Interface\<close> and
  \<open>Set\<close> panic. \<open>reflect.ValueOf(nil)\<close> is the zero Value, which \<open>Set\<close>
  refuses.
\<close>

record 'v cell =
  assignTo :: "'v iface \<Rightarrow> 'v iface option"
  content :: "'v iface"

type_synonym 'v store = "nat \<Rightarrow> 'v cell"

definition Var_Get :: "'v Var \<Rightarrow> 'v store \<Rightarrow> failure + 'v iface" where
  "Var_Get v st =
     (case Var_addr v of
        Pointer (Some a) \<Rightarrow> Inr (content (st a))
      | _ \<Rightarrow> Inl ReflectPanic)"

definition Var_Set :: "'v Var \<Rightarrow> 'v iface \<Rightarrow> 'v store \<Rightarrow> failure + 'v store" where
  "Var_Set v val st =
     (case Var_addr v of
        Pointer (Some a) \<Rightarrow>
          (if val = Nil then Inl ReflectPanic
           else case assignTo (st a) val of
                  None \<Rightarrow> Inl ReflectPanic
                | Some x \<Rightarrow> Inr (st(a := (st a)\<lparr>content := x\<rparr>)))
      | _ \<Rightarrow> Inl ReflectPanic)"

text \<open>
  Two variables for examples, over values that are Go ints (\<open>Inl\<close>) or Go
  strings (\<open>Inr\<close>): one of type \<open>int\<close>, one of type \<open>string\<close>.
\<close>

definition int_var :: "int \<Rightarrow> (int + string) cell" where
  "int_var i =
     \<lparr>assignTo = (\<lambda>v. case v of Val (Inl _) \<Rightarrow> Some v | _ \<Rightarrow> None),
      content = Val (Inl i)\<rparr>"

definition string_var :: "string \<Rightarrow> (int + string) cell" where
  "string_var s =
     \<lparr>assignTo = (\<lambda>v. case v of Val (Inr _) \<Rightarrow> Some v | _ \<Rightarrow> None),
      content = Val (Inr s)\<rparr>"

subsection \<open>Method sets\<close>

text \<open>
  The methods that symbol.go declares on each of the four struct types, by
  name and signature, and the two methods of the interface \<open>Symbol\<close>. A type
  satisfies an interface when its method set has every method of the
  interface.
\<close>

datatype symbol_type = ConstT | FuncT | TypeT | VarT

fun method_set :: "symbol_type \<Rightarrow> (string \<times> string) list" where
  "method_set ConstT = [(''Name'', ''() string''), (''Get'', ''() interface{}'')]"
| "method_set FuncT = [(''Name'', ''() string''), (''Get'', ''() interface{}'')]"
| "method_set TypeT = [(''Name'', ''() string''), (''Get'', ''() interface{}''),
                       (''Type'', ''() reflect.Type'')]"
| "method_set VarT = [(''Get'', ''() interface{}''), (''Set'', ''(val interface{})'')]"

definition Symbol_interface :: "(string \<times> string) list" where
  "Symbol_interface = [(''Name'', ''() string''), (''Get'', ''() interface{}'')]"

definition satisfies :: "symbol_type \<Rightarrow> (string \<times> string) list \<Rightarrow> bool" where
  "satisfies t iface = list_all (\<lambda>m. m \<in> set (method_set t)) iface"

subsection \<open>The package index\<close>

text \<open>
  \<open>pkgs\<close> is a \<open>sync.Map\<close> from package names to \<open>*Package\<close>. A pointer to a
  \<open>Package\<close> is its index in the heap of allocated packages, so that two
  results are the same instance exactly when they are the same pointer.
\<close>

record 'v Package =
  Package_Name :: string
  Package_Symbols :: "'v Symbols"

record 'v world =
  pkgs :: "string \<rightharpoonup> nat"
  heap :: "'v Package list"

definition Load :: "(string \<rightharpoonup> nat) \<Rightarrow> string \<Rightarrow> nat option" where
  "Load m k = m k"

definition LoadOrStore ::
  "(string \<rightharpoonup> nat) \<Rightarrow> string \<Rightarrow> nat \<Rightarrow> nat \<times> bool \<times> (string \<rightharpoonup> nat)" where
  "LoadOrStore m k v =
     (case m k of Some a \<Rightarrow> (a, True, m) | None \<Rightarrow> (v, False, m(k \<mapsto> v)))"

definition Of :: "string \<Rightarrow> 'v world \<Rightarrow> nat \<times> 'v world" where
  "Of name w =
     (case Load (pkgs w) name of
        Some v \<Rightarrow> (v, w)
      | None \<Rightarrow>
          (let pkg = length (heap w);
               w1 = w\<lparr>heap := heap w @ [\<lparr>Package_Name = name, Package_Symbols = zero_Symbols\<rparr>]\<rparr>;
               (v, loaded, m) = LoadOrStore (pkgs w1) name pkg;
               w2 = w1\<lparr>pkgs := m\<rparr>
           in if loaded then (v, w2) else (pkg, w2)))"

definition Lookup :: "string \<Rightarrow> 'v world \<Rightarrow> (failure + nat) \<times> 'v world" where
  "Lookup name w =
     (case Load (pkgs w) name of
        None \<Rightarrow> (Inl (NotFoundErr \<lparr>Pkg = name, Sym = []\<rparr>), w)
      | Some v \<Rightarrow> (Inr v, w))"

section \<open>The declaration scanner (the generator's main.go)\<close>

subsection \<open>Syntax trees and their traversal (go/ast)\<close>

text \<open>
  The part of go/ast that the scanner looks at, shaped as go/parser builds it:
  a file is a list of top-level declarations, each a \<open>GenDecl\<close> (an import,
  const, type or var group) or a \<open>FuncDecl\<close>; inside a function body a const,
  type or var group appears as a \<open>DeclStmt\<close>; a \<open>FuncDecl\<close> appears at top
  level only. Every other statement, expression, type, field list or block is
  \<open>Other\<close> with its children in the order \<open>ast.Walk\<close> visits them. Comment
  groups are left out.
\<close>

datatype Token = token_IMPORT | token_CONST | token_TYPE | token_VAR

datatype Node =
    Ident string
  | BasicLit string
  | DeclStmt GenDecl
  | Other "Node list"
and GenDecl = GenDecl (Tok: Token) (Specs: "Spec list")
and Spec =
    ImportSpec "string option" string
  | TypeSpec string Node
  | ValueSpec "string list" "Node option" "Node list"

datatype FuncDecl =
  FuncDecl (Recv: "Node option") (Name: string) (FuncType: Node) (Body: "Node option")

datatype Decl = DGen GenDecl | DFunc FuncDecl

datatype File = File string "Decl list"

text \<open>The interface \<open>ast.Node\<close>: any of the node types, or nil.\<close>

datatype AnyNode =
    NFile File
  | NGenDecl GenDecl
  | NFuncDecl FuncDecl
  | NSpec Spec
  | NNode Node
  | NNil

text \<open>
  \<open>ast.Inspect(node, f)\<close> calls \<open>f(node)\<close>; if that returns true it traverses
  the children of the node in order and then calls \<open>f(nil)\<close>, whose result it
  ignores. Here \<open>f\<close> also threads its state \<open>'g\<close> and may fail, which ends the
  traversal.
\<close>

definition leave :: "(AnyNode \<Rightarrow> 'g \<Rightarrow> failure + bool \<times> 'g) \<Rightarrow> 'g \<Rightarrow> failure + 'g" where
  "leave f g = (case f NNil g of Inl e \<Rightarrow> Inl e | Inr r \<Rightarrow> Inr (snd r))"

definition visit_leaf ::
  "(AnyNode \<Rightarrow> 'g \<Rightarrow> failure + bool \<times> 'g) \<Rightarrow> AnyNode \<Rightarrow> 'g \<Rightarrow> failure + 'g" where
  "visit_leaf f n g =
     (case f n g of
        Inl e \<Rightarrow> Inl e
      | Inr r \<Rightarrow> if fst r then leave f (snd r) else Inr (snd r))"

fun visit_idents ::
  "(AnyNode \<Rightarrow> 'g \<Rightarrow> failure + bool \<times> 'g) \<Rightarrow> string list \<Rightarrow> 'g \<Rightarrow> failure + 'g" where
  "visit_idents f [] g = Inr g"
| "visit_idents f (x # xs) g =
     (case visit_leaf f (NNode (Ident x)) g of
        Inl e \<Rightarrow> Inl e
      | Inr g1 \<Rightarrow> visit_idents f xs g1)"

fun walk_Node :: "(AnyNode \<Rightarrow> 'g \<Rightarrow> failure + bool \<times> 'g) \<Rightarrow> Node \<Rightarrow> 'g \<Rightarrow> failure + 'g"
and walk_Nodes :: "(AnyNode \<Rightarrow> 'g \<Rightarrow> failure + bool \<times> 'g) \<Rightarrow> Node list \<Rightarrow> 'g \<Rightarrow> failure + 'g"
and walk_GenDecl :: "(AnyNode \<Rightarrow> 'g \<Rightarrow> failure + bool \<times> 'g) \<Rightarrow> GenDecl \<Rightarrow> 'g \<Rightarrow> failure + 'g"
and walk_Spec :: "(AnyNode \<Rightarrow> 'g \<Rightarrow> failure + bool \<times> 'g) \<Rightarrow> Spec \<Rightarrow> 'g \<Rightarrow> failure + 'g"
and walk_Specs :: "(AnyNode \<Rightarrow> 'g \<Rightarrow> failure + bool \<times> 'g) \<Rightarrow> Spec list \<Rightarrow> 'g \<Rightarrow> failure + 'g"
where
  "walk_Node f (Ident x) g = visit_leaf f (NNode (Ident x)) g"
| "walk_Node f (BasicLit x) g = visit_leaf f (NNode (BasicLit x)) g"
| "walk_Node f (DeclStmt d) g =
     (case f (NNode (DeclStmt d)) g of
        Inl e \<Rightarrow> Inl e
      | Inr r \<Rightarrow>
          if fst r then
            (case walk_GenDecl f d (snd r) of
               Inl e \<Rightarrow> Inl e
             | Inr g1 \<Rightarrow> leave f g1)
          else Inr (snd r))"
| "walk_Node f (Other ns) g =
     (case f (NNode (Other ns)) g of
        Inl e \<Rightarrow> Inl e
      | Inr r \<Rightarrow>
          if fst r then
            (case walk_Nodes f ns (snd r) of
               Inl e \<Rightarrow> Inl e
             | Inr g1 \<Rightarrow> leave f g1)
          else Inr (snd r))"
| "walk_Nodes f [] g = Inr g"
| "walk_Nodes f (n # ns) g =
     (case walk_Node f n g of
        Inl e \<Rightarrow> Inl e
      | Inr g1 \<Rightarrow> walk_Nodes f ns g1)"
| "walk_GenDecl f (GenDecl tok specs) g =
     (case f (NGenDecl (GenDecl tok specs)) g of
        Inl e \<Rightarrow> Inl e
      | Inr r \<Rightarrow>
          if fst r then
            (case walk_Specs f specs (snd r) of
               Inl e \<Rightarrow> Inl e
             | Inr g1 \<Rightarrow> leave f g1)
          else Inr (snd r))"
| "walk_Spec f (ImportSpec nm path) g =
     (case f (NSpec (ImportSpec nm path)) g of
        Inl e \<Rightarrow> Inl e
      | Inr r \<Rightarrow>
          if fst r then
            (case visit_idents f (case nm of None \<Rightarrow> [] | Some x \<Rightarrow> [x]) (snd r) of
               Inl e \<Rightarrow> Inl e
             | Inr g1 \<Rightarrow>
                 (case visit_leaf f (NNode (BasicLit path)) g1 of
                    Inl e \<Rightarrow> Inl e
                  | Inr g2 \<Rightarrow> leave f g2))
          else Inr (snd r))"
| "walk_Spec f (TypeSpec nm tp) g =
     (case f (NSpec (TypeSpec nm tp)) g of
        Inl e \<Rightarrow> Inl e
      | Inr r \<Rightarrow>
          if fst r then
            (case visit_leaf f (NNode (Ident nm)) (snd r) of
               Inl e \<Rightarrow> Inl e
             | Inr g1 \<Rightarrow>
                 (case walk_Node f tp g1 of
                    Inl e \<Rightarrow> Inl e
                  | Inr g2 \<Rightarrow> leave f g2))
          else Inr (snd r))"
| "walk_Spec f (ValueSpec nms tp vals) g =
     (case f (NSpec (ValueSpec nms tp vals)) g of
        Inl e \<Rightarrow> Inl e
      | Inr r \<Rightarrow>
          if fst r then
            (case visit_idents f nms (snd r) of
               Inl e \<Rightarrow> Inl e
             | Inr g1 \<Rightarrow>
                 (case (case tp of None \<Rightarrow> Inr g1 | Some t \<Rightarrow> walk_Node f t g1) of
                    Inl e \<Rightarrow> Inl e
                  | Inr g2 \<Rightarrow>
                      (case walk_Nodes f vals g2 of
                         Inl e \<Rightarrow> Inl e
                       | Inr g3 \<Rightarrow> leave f g3)))
          else Inr (snd r))"
| "walk_Specs f [] g = Inr g"
| "walk_Specs f (s # ss) g =
     (case walk_Spec f s g of
        Inl e \<Rightarrow> Inl e
      | Inr g1 \<Rightarrow> walk_Specs f ss g1)"

definition walk_FuncDecl ::
  "(AnyNode \<Rightarrow> 'g \<Rightarrow> failure + bool \<times> 'g) \<Rightarrow> FuncDecl \<Rightarrow> 'g \<Rightarrow> failure + 'g" where
  "walk_FuncDecl f fd g =
     (case f (NFuncDecl fd) g of
        Inl e \<Rightarrow> Inl e
      | Inr r \<Rightarrow>
          if fst r then
            (case (case Recv fd of None \<Rightarrow> Inr (snd r) | Some rc \<Rightarrow> walk_Node f rc (snd r)) of
               Inl e \<Rightarrow> Inl e
             | Inr g1 \<Rightarrow>
                 (case visit_leaf f (NNode (Ident (Name fd))) g1 of
                    Inl e \<Rightarrow> Inl e
                  | Inr g2 \<Rightarrow>
                      (case walk_Node f (FuncType fd) g2 of
                         Inl e \<Rightarrow> Inl e
                       | Inr g3 \<Rightarrow>
                           (case (case Body fd of None \<Rightarrow> Inr g3
                                  | Some b \<Rightarrow> walk_Node f b g3) of
                              Inl e \<Rightarrow> Inl e
                            | Inr g4 \<Rightarrow> leave f g4))))
          else Inr (snd r))"

fun walk_Decl :: "(AnyNode \<Rightarrow> 'g \<Rightarrow> failure + bool \<times> 'g) \<Rightarrow> Decl \<Rightarrow> 'g \<Rightarrow> failure + 'g" where
  "walk_Decl f (DGen d) g = walk_GenDecl f d g"
| "walk_Decl f (DFunc fd) g = walk_FuncDecl f fd g"

fun walk_Decls ::
  "(AnyNode \<Rightarrow> 'g \<Rightarrow> failure + bool \<times> 'g) \<Rightarrow> Decl list \<Rightarrow> 'g \<Rightarrow> failure + 'g" where
  "walk_Decls f [] g = Inr g"
| "walk_Decls f (d # ds) g =
     (case walk_Decl f d g of
        Inl e \<Rightarrow> Inl e
      | Inr g1 \<Rightarrow> walk_Decls f ds g1)"

fun Inspect :: "File \<Rightarrow> (AnyNode \<Rightarrow> 'g \<Rightarrow> failure + bool \<times> 'g) \<Rightarrow> 'g \<Rightarrow> failure + 'g" where
  "Inspect (File nm ds) f g =
     (case f (NFile (File nm ds)) g of
        Inl e \<Rightarrow> Inl e
      | Inr r \<Rightarrow>
          if fst r then
            (case visit_leaf f (NNode (Ident nm)) (snd r) of
               Inl e \<Rightarrow> Inl e
             | Inr g1 \<Rightarrow>
                 (case walk_Decls f ds g1 of
                    Inl e \<Rightarrow> Inl e
                  | Inr g2 \<Rightarrow> leave f g2))
          else Inr (snd r))"

subsection \<open>The generator\<close>

text \<open>
  Two functions of the Go library are parameters of the scanner:
  \<open>IsExported\<close> of go/ast (whether a name starts with an upper-case letter, by
  the Unicode tables) and \<open>printer.Fprint\<close> (the text of an expression, or
  \<open>None\<close> for an error).
\<close>

record lib =
  IsExported :: "string \<Rightarrow> bool"
  Fprint :: "Node \<Rightarrow> string option"

text \<open>
  For examples: names that start with an ASCII capital are exported, and
  identifiers and basic literals print as their text.
\<close>

definition ascii_lib :: lib where
  "ascii_lib =
     \<lparr>IsExported = (\<lambda>s. case s of [] \<Rightarrow> False
                          | c # _ \<Rightarrow> c \<in> set ''ABCDEFGHIJKLMNOPQRSTUVWXYZ''),
      Fprint = (\<lambda>n. case n of Ident x \<Rightarrow> Some x | BasicLit x \<Rightarrow> Some x
                      | _ \<Rightarrow> Some [])\<rparr>"

text \<open>\<open>declKind\<close> is an int; its constants are numbered by iota.\<close>

type_synonym declKind = int

definition badDecl :: declKind where "badDecl = 0"
definition constDecl :: declKind where "constDecl = 1"
definition typeDecl :: declKind where "typeDecl = 2"
definition funcDecl :: declKind where "funcDecl = 3"
definition varDecl :: declKind where "varDecl = 4"

text \<open>
  A \<open>decl\<close> without its back pointer to the generator, and the generator
  without the package it reads, which is an argument of \<open>generate\<close>.
\<close>

record decl =
  decl_kind :: declKind
  decl_Name :: string
  decl_Type :: string

record generator =
  decls :: "decl list"
  prefix :: string

record Package_src =
  pkg_Name :: string
  Syntax :: "File list"

text \<open>The loop over the specs of a type group.\<close>

fun inspect_types :: "lib \<Rightarrow> Spec list \<Rightarrow> generator \<Rightarrow> failure + generator" where
  "inspect_types L [] g = Inr g"
| "inspect_types L (TypeSpec nm tp # ss) g =
     (if \<not> IsExported L nm then inspect_types L ss g
      else inspect_types L ss
             (g\<lparr>decls := decls g @ [\<lparr>decl_kind = typeDecl, decl_Name = nm, decl_Type = []\<rparr>]\<rparr>))"
| "inspect_types L (_ # ss) g = Inl TypeAssertion"

text \<open>
  The loop over the names of one value spec; \<open>i\<close> is the index of the first
  name of \<open>nms\<close> in the spec.
\<close>

fun inspect_names ::
  "lib \<Rightarrow> declKind \<Rightarrow> Node option \<Rightarrow> Node list \<Rightarrow> nat \<Rightarrow> string list \<Rightarrow> generator
   \<Rightarrow> failure + generator" where
  "inspect_names L kind tp vals i [] g = Inr g"
| "inspect_names L kind tp vals i (nm # nms) g =
     (if \<not> IsExported L nm then inspect_names L kind tp vals (Suc i) nms g
      else
        (case (case tp of
                 Some t \<Rightarrow> Inr t
               | None \<Rightarrow> if i < length vals then Inr (vals ! i) else Inl IndexOutOfRange) of
           Inl e \<Rightarrow> Inl e
         | Inr t \<Rightarrow>
             (case Fprint L t of
                None \<Rightarrow> Inl Fatal
              | Some txt \<Rightarrow>
                  inspect_names L kind tp vals (Suc i) nms
                    (g\<lparr>decls := decls g @
                         [\<lparr>decl_kind = kind, decl_Name = nm, decl_Type = txt\<rparr>]\<rparr>))))"

fun inspect_values :: "lib \<Rightarrow> declKind \<Rightarrow> Spec list \<Rightarrow> generator \<Rightarrow> failure + generator" where
  "inspect_values L kind [] g = Inr g"
| "inspect_values L kind (ValueSpec nms tp vals # ss) g =
     (case inspect_names L kind tp vals 0 nms g of
        Inl e \<Rightarrow> Inl e
      | Inr g1 \<Rightarrow> inspect_values L kind ss g1)"
| "inspect_values L kind (_ # ss) g = Inl TypeAssertion"

text \<open>
  \<open>generator.inspect\<close>. In the const case \<open>kind\<close> is set and control falls
  through to the var case, which sets it only when it is still \<open>badDecl\<close>.
\<close>

fun inspect :: "lib \<Rightarrow> AnyNode \<Rightarrow> generator \<Rightarrow> failure + bool \<times> generator" where
  "inspect L (NGenDecl n) g =
     (case Tok n of
        token_TYPE \<Rightarrow>
          (case inspect_types L (Specs n) g of
             Inl e \<Rightarrow> Inl e
           | Inr g1 \<Rightarrow> Inr (False, g1))
      | token_IMPORT \<Rightarrow> Inr (True, g)
      | _ \<Rightarrow>
          (let kind = (if Tok n = token_CONST then constDecl else badDecl);
               kind = (if kind = badDecl then varDecl else kind)
           in case inspect_values L kind (Specs n) g of
                Inl e \<Rightarrow> Inl e
              | Inr g1 \<Rightarrow> Inr (False, g1)))"
| "inspect L (NFuncDecl n) g =
     (if Recv n \<noteq> None then Inr (True, g)
      else if \<not> IsExported L (Name n) then Inr (True, g)
      else Inr (False,
             g\<lparr>decls := decls g @ [\<lparr>decl_kind = funcDecl, decl_Name = Name n, decl_Type = []\<rparr>]\<rparr>))"
| "inspect L _ g = Inr (True, g)"

fun generate_files :: "lib \<Rightarrow> File list \<Rightarrow> generator \<Rightarrow> failure + generator" where
  "generate_files L [] g = Inr g"
| "generate_files L (f # fs) g =
     (case Inspect f (inspect L) g of
        Inl e \<Rightarrow> Inl e
      | Inr g1 \<Rightarrow> generate_files L fs g1)"

definition generate :: "lib \<Rightarrow> Package_src \<Rightarrow> bool \<Rightarrow> generator \<Rightarrow> failure + generator" where
  "generate L pkg omitPrefix g =
     (let g1 = (if \<not> omitPrefix then g\<lparr>prefix := pkg_Name pkg @ ''.''\<rparr> else g)
      in generate_files L (Syntax pkg) g1)"

subsection \<open>Sorting the descriptors\<close>

text \<open>
  \<open>strings.Compare\<close> compares byte by byte; the order on \<open>string\<close> is the
  lexicographic order of the byte values.
\<close>

definition strings_Compare :: "string \<Rightarrow> string \<Rightarrow> int" where
  "strings_Compare a b = (if a = b then 0 else if a < b then - 1 else 1)"

text \<open>The less function that \<open>main\<close> gives to \<open>sort.Slice\<close>.\<close>

definition decl_less :: "decl \<Rightarrow> decl \<Rightarrow> bool" where
  "decl_less a b =
     (let c = decl_kind a - decl_kind b
      in if c \<noteq> 0 then c < 0
         else strings_Compare (decl_Name a) (decl_Name b) < 0)"

text \<open>
  \<open>sort.Slice\<close> sorts the slice in place by the less function. It is modelled
  by insertion sort, which keeps elements that compare equal in their order;
  Go leaves open in which order they end up.
\<close>

fun insert_by :: "('a \<Rightarrow> 'a \<Rightarrow> bool) \<Rightarrow> 'a \<Rightarrow> 'a list \<Rightarrow> 'a list" where
  "insert_by lt x [] = [x]"
| "insert_by lt x (y # ys) =
     (if \<not> lt y x then x # y # ys else y # insert_by lt x ys)"

definition sort_Slice :: "('a \<Rightarrow> 'a \<Rightarrow> bool) \<Rightarrow> 'a list \<Rightarrow> 'a list" where
  "sort_Slice lt xs = foldr (insert_by lt) xs []"

text \<open>
  The part of \<open>main\<close> from the construction of the generator to the sorted
  list of descriptors; \<open>omitPrefix\<close> is what \<open>main\<close> computes from its flags.
\<close>

definition main_decls :: "lib \<Rightarrow> Package_src \<Rightarrow> bool \<Rightarrow> failure + decl list" where
  "main_decls L pkg omitPrefix =
     (case generate L pkg omitPrefix \<lparr>decls = [], prefix = []\<rparr> of
        Inl e \<Rightarrow> Inl e
      | Inr g \<Rightarrow> Inr (sort_Slice decl_less (decls g)))"

text \<open>What the sort is to achieve: kinds ascending, and names ascending within a kind.\<close>

definition decl_le :: "decl \<Rightarrow> decl \<Rightarrow> bool" where
  "decl_le a b =
     (decl_kind a < decl_kind b \<or> (decl_kind a = decl_kind b \<and> decl_Name a \<le> decl_Name b))"

subsection \<open>The earlier generator\<close>

text \<open>
  The repository holds a second, earlier main.go of the generator. Its
  descriptors carry the kind as a string, and its \<open>main\<close> goes from
  \<open>generate\<close> straight to printing the descriptors.
\<close>

record legacy_decl =
  legacy_Kind :: string
  legacy_Name :: string
  legacy_Type :: string

record legacy_generator =
  legacy_decls :: "legacy_decl list"
  legacy_prefix :: string

fun legacy_inspect_types ::
  "lib \<Rightarrow> Spec list \<Rightarrow> legacy_generator \<Rightarrow> failure + legacy_generator" where
  "legacy_inspect_types L [] g = Inr g"
| "legacy_inspect_types L (TypeSpec nm tp # ss) g =
     (if \<not> IsExported L nm then legacy_inspect_types L ss g
      else legacy_inspect_types L ss
             (g\<lparr>legacy_decls := legacy_decls g @
                  [\<lparr>legacy_Kind = ''Type'', legacy_Name = nm, legacy_Type = []\<rparr>]\<rparr>))"
| "legacy_inspect_types L (_ # ss) g = Inl TypeAssertion"

fun legacy_inspect_names ::
  "lib \<Rightarrow> string \<Rightarrow> Node option \<Rightarrow> Node list \<Rightarrow> nat \<Rightarrow> string list \<Rightarrow> legacy_generator
   \<Rightarrow> failure + legacy_generator" where
  "legacy_inspect_names L kind tp vals i [] g = Inr g"
| "legacy_inspect_names L kind tp vals i (nm # nms) g =
     (if \<not> IsExported L nm then legacy_inspect_names L kind tp vals (Suc i) nms g
      else
        (case (case tp of
                 Some t \<Rightarrow> Inr t
               | None \<Rightarrow> if i < length vals then Inr (vals ! i) else Inl IndexOutOfRange) of
           Inl e \<Rightarrow> Inl e
         | Inr t \<Rightarrow>
             (case Fprint L t of
                None \<Rightarrow> Inl Fatal
              | Some txt \<Rightarrow>
                  legacy_inspect_names L kind tp vals (Suc i) nms
                    (g\<lparr>legacy_decls := legacy_decls g @
                         [\<lparr>legacy_Kind = kind, legacy_Name = nm, legacy_Type = txt\<rparr>]\<rparr>))))"

fun legacy_inspect_values ::
  "lib \<Rightarrow> string \<Rightarrow> Spec list \<Rightarrow> legacy_generator \<Rightarrow> failure + legacy_generator" where
  "legacy_inspect_values L kind [] g = Inr g"
| "legacy_inspect_values L kind (ValueSpec nms tp vals # ss) g =
     (case legacy_inspect_names L kind tp vals 0 nms g of
        Inl e \<Rightarrow> Inl e
      | Inr g1 \<Rightarrow> legacy_inspect_values L kind ss g1)"
| "legacy_inspect_values L kind (_ # ss) g = Inl TypeAssertion"

fun legacy_inspect ::
  "lib \<Rightarrow> AnyNode \<Rightarrow> legacy_generator \<Rightarrow> failure + bool \<times> legacy_generator" where
  "legacy_inspect L (NGenDecl n) g =
     (case Tok n of
        token_TYPE \<Rightarrow>
          (case legacy_inspect_types L (Specs n) g of
             Inl e \<Rightarrow> Inl e
           | Inr g1 \<Rightarrow> Inr (False, g1))
      | token_IMPORT \<Rightarrow> Inr (True, g)
      | _ \<Rightarrow>
          (let kind = (if Tok n = token_CONST then ''Const'' else []);
               kind = (if kind = [] then ''Var'' else kind)
           in case legacy_inspect_values L kind (Specs n) g of
                Inl e \<Rightarrow> Inl e
              | Inr g1 \<Rightarrow> Inr (False, g1)))"
| "legacy_inspect L (NFuncDecl n) g =
     (if Recv n \<noteq> None then Inr (True, g)
      else if \<not> IsExported L (Name n) then Inr (True, g)
      else Inr (False,
             g\<lparr>legacy_decls := legacy_decls g @
                  [\<lparr>legacy_Kind = ''Func'', legacy_Name = Name n, legacy_Type = []\<rparr>]\<rparr>))"
| "legacy_inspect L _ g = Inr (True, g)"

fun legacy_generate_files ::
  "lib \<Rightarrow> File list \<Rightarrow> legacy_generator \<Rightarrow> failure + legacy_generator" where
  "legacy_generate_files L [] g = Inr g"
| "legacy_generate_files L (f # fs) g =
     (case Inspect f (legacy_inspect L) g of
        Inl e \<Rightarrow> Inl e
      | Inr g1 \<Rightarrow> legacy_generate_files L fs g1)"

definition legacy_generate ::
  "lib \<Rightarrow> Package_src \<Rightarrow> string \<Rightarrow> legacy_generator \<Rightarrow> failure + legacy_generator" where
  "legacy_generate L pkg pkgname g =
     (let g1 = (if pkg_Name pkg = pkgname then g\<lparr>legacy_prefix := []\<rparr>
                else g\<lparr>legacy_prefix := pkg_Name pkg @ ''.''\<rparr>)
      in legacy_generate_files L (Syntax pkg) g1)"

definition legacy_main_decls ::
  "lib \<Rightarrow> Package_src \<Rightarrow> string \<Rightarrow> failure + legacy_decl list" where
  "legacy_main_decls L pkg pkgname =
     (case legacy_generate L pkg pkgname \<lparr>legacy_decls = [], legacy_prefix = []\<rparr> of
        Inl e \<Rightarrow> Inl e
      | Inr g \<Rightarrow> Inr (legacy_decls g))"

subsection \<open>Notions used in the statements\<close>

text \<open>
  The Function descriptors of a list, and the descriptors that the top-level
  functions of a package stand for by the rule of the specification: one for
  each function declaration at package scope that has no receiver and an
  exported name, in source order.
\<close>

definition is_func :: "decl \<Rightarrow> bool" where
  "is_func d = (decl_kind d = funcDecl)"

fun file_decls :: "File \<Rightarrow> Decl list" where
  "file_decls (File nm ds) = ds"

fun toplevel_func :: "lib \<Rightarrow> Decl \<Rightarrow> decl list" where
  "toplevel_func L (DGen d) = []"
| "toplevel_func L (DFunc fd) =
     (if Recv fd = None \<and> IsExported L (Name fd)
      then [\<lparr>decl_kind = funcDecl, decl_Name = Name fd, decl_Type = []\<rparr>] else [])"

definition toplevel_funcs :: "lib \<Rightarrow> File list \<Rightarrow> decl list" where
  "toplevel_funcs L fs = concat (map (\<lambda>f. concat (map (toplevel_func L) (file_decls f))) fs)"

definition funcs_of :: "generator \<Rightarrow> decl list" where
  "funcs_of g = filter is_func (decls g)"

text \<open>
  A visitor keeps a quantity \<open>h\<close> of its state when every call on a node
  other than a function declaration leaves \<open>h\<close> as it is.
\<close>

definition keeps :: "(AnyNode \<Rightarrow> 'g \<Rightarrow> failure + bool \<times> 'g) \<Rightarrow> ('g \<Rightarrow> 'h) \<Rightarrow> bool" where
  "keeps f h = (\<forall>n g r. f n g = Inr r \<and> (\<forall>fd. n \<noteq> NFuncDecl fd) \<longrightarrow> h (snd r) = h g)"

text \<open>
  The order on the descriptors of the earlier generator: kinds (strings)
  ascending, names ascending within a kind.
\<close>

definition legacy_le :: "legacy_decl \<Rightarrow> legacy_decl \<Rightarrow> bool" where
  "legacy_le a b =
     (legacy_Kind a < legacy_Kind b
      \<or> (legacy_Kind a = legacy_Kind b \<and> legacy_Name a \<le> legacy_Name b))"

subsection \<open>Example sources\<close>

text \<open>
  The fragment
  \<^verbatim>\<open>const Pi = 3; type Shape interface{}; func Area() int; func (s Shape) Name() string\<close>
  as go/parser builds it.
\<close>

definition shapes_fragment :: File where
  "shapes_fragment = File ''shapes''
     [DGen (GenDecl token_CONST [ValueSpec [''Pi''] None [BasicLit ''3'']]),
      DGen (GenDecl token_TYPE [TypeSpec ''Shape'' (Other [Other []])]),
      DFunc (FuncDecl None ''Area'' (Other [Other [], Other [Other [Ident ''int'']]]) None),
      DFunc (FuncDecl (Some (Other [Other [Ident ''s'', Ident ''Shape'']])) ''Name''
               (Other [Other [], Other [Other [Ident ''string'']]]) None)]"

text \<open>
  \<^verbatim>\<open>func (s Shape) Name() string { const Local = 1; return "" }\<close> and
  \<^verbatim>\<open>func helper() { type Inner struct{} }\<close>.
\<close>

definition nested_scopes :: File where
  "nested_scopes = File ''shapes''
     [DFunc (FuncDecl (Some (Other [Other [Ident ''s'', Ident ''Shape'']])) ''Name''
               (Other [Other [], Other [Other [Ident ''string'']]])
               (Some (Other [DeclStmt (GenDecl token_CONST
                                         [ValueSpec [''Local''] None [BasicLit ''1'']]),
                             Other [BasicLit ''\"\"'']]))),
      DFunc (FuncDecl None ''helper'' (Other [Other []])
               (Some (Other [DeclStmt (GenDecl token_TYPE
                                         [TypeSpec ''Inner'' (Other [Other []])])])))]"

text \<open>\<^verbatim>\<open>func B()\<close> followed by \<^verbatim>\<open>func A()\<close>.\<close>

definition two_funcs :: File where
  "two_funcs = File ''p''
     [DFunc (FuncDecl None ''B'' (Other [Other []]) None),
      DFunc (FuncDecl None ''A'' (Other [Other []]) None)]"

section \<open>Verified properties of the registry\<close>

subsection \<open>Auxiliary facts about \<open>Add\<close> and \<open>Lookup\<close>\<close>

lemma Add_step_keeps:
  "fst st n = Some i \<Longrightarrow> i < length (snd st) \<Longrightarrow>
   fst (Add_step st s) n = Some i \<and> i < length (snd (Add_step st s)) \<and> snd (Add_step st s) ! i = snd st ! i"
  by (auto simp: Add_step_def Let_def nth_append split: option.splits)

lemma Add_loop_keeps:
  "fst st n = Some i \<Longrightarrow> i < length (snd st) \<Longrightarrow>
   fst (snd (Add_loop st ss)) n = Some i \<and> i < length (snd (snd (Add_loop st ss)))
   \<and> snd (snd (Add_loop st ss)) ! i = snd st ! i"
proof (induction st ss rule: Add_loop.induct)
  case (1 st)
  then show ?case by simp
next
  case (2 st ss)
  then show ?case by simp
next
  case (3 st s ss)
  from Add_step_keeps[OF "3.prems", of s]
  have a: "fst (Add_step st s) n = Some i" "i < length (snd (Add_step st s))"
    and b: "snd (Add_step st s) ! i = snd st ! i" by auto
  from "3.IH"[OF a] b show ?case by simp
qed

lemma Lookup_Inr_iff:
  "Symbols_Lookup n syms = Inr r \<longleftrightarrow>
   (\<exists>f i. names syms = Some f \<and> f n = Some i \<and> i < length (slice syms) \<and> slice syms ! i = r)"
  by (auto simp: Symbols_Lookup_def map_index_def split: option.splits)

lemma Add_step_inv:
  assumes "pair_inv st"
  shows "pair_inv (Add_step st s)"
proof (cases "fst st (Symbol_Name s)")
  case (Some j)
  then have "Add_step st s = st" by (simp add: Add_step_def)
  with assms show ?thesis by simp
next
  case None
  obtain f sl where st: "st = (f, sl)" by (cases st)
  from assms st have iff: "\<And>n i. f n = Some i \<longleftrightarrow> (i < length sl \<and> Symbol_Name (sl ! i) = n)"
    and d: "distinct (map Symbol_Name sl)" by (auto simp: pair_inv_def)
  from None st have fresh: "f (Symbol_Name s) = None" by simp
  have notin: "Symbol_Name s \<notin> set (map Symbol_Name sl)"
  proof
    assume "Symbol_Name s \<in> set (map Symbol_Name sl)"
    then obtain i where "i < length sl" "Symbol_Name (sl ! i) = Symbol_Name s"
      by (auto simp: in_set_conv_nth)
    with iff[of "Symbol_Name s" i] fresh show False by simp
  qed
  have eq: "Add_step st s = (f(Symbol_Name s \<mapsto> length sl), sl @ [s])"
    using fresh st by (simp add: Add_step_def)
  have "\<And>n i. (f(Symbol_Name s \<mapsto> length sl)) n = Some i \<longleftrightarrow>
          (i < length (sl @ [s]) \<and> Symbol_Name ((sl @ [s]) ! i) = n)"
  proof -
    fix n i
    show "(f(Symbol_Name s \<mapsto> length sl)) n = Some i \<longleftrightarrow>
          (i < length (sl @ [s]) \<and> Symbol_Name ((sl @ [s]) ! i) = n)"
    proof (cases "i < length sl")
      case True
      then have "Symbol_Name (sl ! i) \<in> set (map Symbol_Name sl)" by simp
      with notin have "Symbol_Name (sl ! i) \<noteq> Symbol_Name s" by metis
      with True iff[of n i] show ?thesis by (auto simp: nth_append)
    next
      case False
      with iff[of n i] show ?thesis by (auto simp: nth_append less_Suc_eq)
    qed
  qed
  moreover have "distinct (map Symbol_Name (sl @ [s]))" using d notin by simp
  ultimately show ?thesis unfolding eq pair_inv_def by simp
qed

lemma Add_loop_inv: "pair_inv st \<Longrightarrow> pair_inv (snd (Add_loop st ss))"
  by (induction st ss rule: Add_loop.induct) (auto simp: Add_step_inv)

lemma Add_loop_no_panic: "fst (Add_loop st (map Some ss)) = None"
  by (induction ss arbitrary: st) simp_all



lemma inv_pair: "Symbols_inv \<lparr>names = Some f, slice = sl\<rparr> = pair_inv (f, sl)"
  by (simp add: Symbols_inv_def pair_inv_def map_index_def)

lemma pair_inv_empty: "pair_inv (Map.empty, [])"
  by (simp add: pair_inv_def)

lemma inv_Make: "Symbols_inv (MakeSymbols c)"
  by (simp add: MakeSymbols_def inv_pair pair_inv_empty)

lemma inv_zero: "Symbols_inv zero_Symbols"
  by (simp add: Symbols_inv_def zero_Symbols_def map_index_def)

lemma inv_Add: "Symbols_inv syms \<Longrightarrow> Symbols_inv (snd (Symbols_Add ss syms))"
proof (cases "names syms")
  case None
  then show ?thesis
    by (simp add: Symbols_Add_def Let_def inv_pair Add_loop_inv pair_inv_empty)
next
  case (Some f)
  assume "Symbols_inv syms"
  with Some have "pair_inv (f, slice syms)"
    by (simp add: Symbols_inv_def pair_inv_def map_index_def)
  with Some show ?thesis
    by (simp add: Symbols_Add_def Let_def inv_pair Add_loop_inv)
qed

lemma inv_apply_op: "Symbols_inv syms \<Longrightarrow> Symbols_inv (apply_op syms x)"
  by (cases x) (simp_all add: inv_Add)

lemma inv_foldl: "Symbols_inv syms \<Longrightarrow> Symbols_inv (foldl apply_op syms ops)"
  by (induction ops arbitrary: syms) (simp_all add: inv_apply_op)

lemma Add_step_other:
  "fst st n = None \<Longrightarrow> Symbol_Name s \<noteq> n \<Longrightarrow> fst (Add_step st s) n = None"
  by (simp add: Add_step_def Let_def split: option.splits)

lemma Add_loop_absent:
  "fst st n = None \<Longrightarrow> find (\<lambda>x. Symbol_Name x = n) ss = None \<Longrightarrow>
   fst (snd (Add_loop st (map Some ss))) n = None"
proof (induction ss arbitrary: st)
  case Nil
  then show ?case by simp
next
  case (Cons s ss)
  then have ne: "Symbol_Name s \<noteq> n" and rest: "find (\<lambda>x. Symbol_Name x = n) ss = None"
    by (auto split: if_splits)
  from Cons.IH[OF Add_step_other[OF Cons.prems(1) ne] rest] show ?case by simp
qed

lemma Add_loop_first:
  "fst st n = None \<Longrightarrow> find (\<lambda>x. Symbol_Name x = n) ss = Some x \<Longrightarrow>
   \<exists>i. fst (snd (Add_loop st (map Some ss))) n = Some i
       \<and> i < length (snd (snd (Add_loop st (map Some ss))))
       \<and> snd (snd (Add_loop st (map Some ss))) ! i = x"
proof (induction ss arbitrary: st)
  case Nil
  then show ?case by simp
next
  case (Cons s ss)
  show ?case
  proof (cases "Symbol_Name s = n")
    case True
    with Cons.prems have x: "x = s" by simp
    let ?st = "Add_step st s"
    from True Cons.prems(1)
    have "fst ?st n = Some (length (snd st))" "length (snd st) < length (snd ?st)"
      "snd ?st ! length (snd st) = s"
      by (simp_all add: Add_step_def)
    from Add_loop_keeps[OF this(1,2), of "map Some ss"] this(3) x show ?thesis by auto
  next
    case False
    with Cons.prems have rest: "find (\<lambda>x. Symbol_Name x = n) ss = Some x" by simp
    from Cons.IH[OF Add_step_other[OF Cons.prems(1) False] rest] show ?thesis by simp
  qed
qed


lemma Lookup_Add_fresh:
  assumes "map_index (names syms) n = None"
  shows "find (\<lambda>x. Symbol_Name x = n) ss = Some x \<Longrightarrow>
           Symbols_Lookup n (snd (Symbols_Add (map Some ss) syms)) = Inr x"
    and "find (\<lambda>x. Symbol_Name x = n) ss = None \<Longrightarrow>
           Symbols_Lookup n (snd (Symbols_Add (map Some ss) syms))
             = Inl (NotFoundErr \<lparr>Pkg = [], Sym = n\<rparr>)"
proof -
  define st0 where "st0 = (case names syms of None \<Rightarrow> (Map.empty, []) | Some f \<Rightarrow> (f, slice syms))"
  from assms have st0: "fst st0 n = None"
    by (auto simp: st0_def map_index_def split: option.splits)
  have add: "snd (Symbols_Add (map Some ss) syms)
               = \<lparr>names = Some (fst (snd (Add_loop st0 (map Some ss)))),
                  slice = snd (snd (Add_loop st0 (map Some ss)))\<rparr>"
    by (simp add: Symbols_Add_def st0_def Let_def)
  show "find (\<lambda>x. Symbol_Name x = n) ss = Some x \<Longrightarrow>
           Symbols_Lookup n (snd (Symbols_Add (map Some ss) syms)) = Inr x"
    using Add_loop_first[OF st0, of ss x] by (auto simp: add Lookup_Inr_iff)
  show "find (\<lambda>x. Symbol_Name x = n) ss = None \<Longrightarrow>
           Symbols_Lookup n (snd (Symbols_Add (map Some ss) syms))
             = Inl (NotFoundErr \<lparr>Pkg = [], Sym = n\<rparr>)"
    using Add_loop_absent[OF st0, of ss] by (simp add: add Symbols_Lookup_def map_index_def)
qed

lemma Add_no_panic: "fst (Symbols_Add (map Some ss) syms) = None"
  by (simp add: Symbols_Add_def Let_def Add_loop_no_panic)


lemma Of_present: "pkgs w name = Some p \<Longrightarrow> Of name w = (p, w)"
  by (simp add: Of_def Load_def)

lemma Of_absent:
  "pkgs w name = None \<Longrightarrow>
   Of name w = (length (heap w),
                \<lparr>pkgs = (pkgs w)(name \<mapsto> length (heap w)),
                 heap = heap w @ [\<lparr>Package_Name = name, Package_Symbols = zero_Symbols\<rparr>]\<rparr>)"
  by (simp add: Of_def Load_def LoadOrStore_def Let_def)

lemma Of_stored: "pkgs (snd (Of name w)) name = Some (fst (Of name w))"
  by (cases "pkgs w name") (simp_all add: Of_present Of_absent)


lemmas registry_eval =
  Symbols_Lookup_def Symbols_Add_def MakeSymbols_def Add_step_def map_index_def Let_def
  zero_Symbols_def

subsection \<open>Main results\<close>

text \<open>
  C1. \<open>Add\<close> is idempotent and reports no error (it has no error result):
  when \<open>Lookup\<close> of a name returns a record, it returns the same record after
  any further \<open>Add\<close>, whatever the call carries, and adding one more record of
  that name does not panic and leaves the collection as it was. In a
  collection with the invariant, \<open>Lookup\<close> of every name that is a key of the
  map returns the record at its index.
\<close>

theorem Add_first_wins:
  "(Symbols_Lookup n syms = Inr r \<longrightarrow>
      Symbols_Lookup n (snd (Symbols_Add ss syms)) = Inr r
      \<and> (\<forall>s. Symbol_Name s = n \<longrightarrow> Symbols_Add [Some s] syms = (None, syms)))
   \<and> (Symbols_inv syms \<and> map_index (names syms) n = Some i \<longrightarrow>
        Symbols_Lookup n syms = Inr (slice syms ! i))"
proof -
  have a: "Symbols_Lookup n (snd (Symbols_Add ss syms)) = Inr r
           \<and> (\<forall>s. Symbol_Name s = n \<longrightarrow> Symbols_Add [Some s] syms = (None, syms))"
    if "Symbols_Lookup n syms = Inr r"
  proof -
    from that obtain f i where f: "names syms = Some f" "f n = Some i"
      "i < length (slice syms)" "slice syms ! i = r"
      unfolding Lookup_Inr_iff by blast
    from Add_loop_keeps[of "(f, slice syms)" n i ss] f
    have "Symbols_Lookup n (snd (Symbols_Add ss syms)) = Inr r"
      by (simp add: Lookup_Inr_iff Symbols_Add_def Let_def)
    moreover have "\<forall>s. Symbol_Name s = n \<longrightarrow> Symbols_Add [Some s] syms = (None, syms)"
      using f by (simp add: Symbols_Add_def Add_step_def Let_def)
    ultimately show ?thesis by simp
  qed
  have b: "Symbols_Lookup n syms = Inr (slice syms ! i)"
    if "Symbols_inv syms" "map_index (names syms) n = Some i"
  proof -
    from that have "i < length (slice syms)" by (simp add: Symbols_inv_def)
    with that(2) show ?thesis
      by (auto simp: Symbols_Lookup_def map_index_def split: option.splits)
  qed
  from a b show ?thesis by blast
qed

theorem Add_first_wins_witness:
  "Symbols_Lookup ''N''
     (snd (Symbols_Add [Some (SymConst (Const ''N'' (Val (42::int))))] (MakeSymbols 0)))
     = Inr (SymConst (Const ''N'' (Val 42)))
   \<and> Symbols_Lookup ''N''
        (snd (Symbols_Add [Some (SymConst (Const ''N'' (Val 7))), None, Some (SymFunc (Func ''F'' Nil))]
           (snd (Symbols_Add [Some (SymConst (Const ''N'' (Val (42::int))))] (MakeSymbols 0)))))
     = Inr (SymConst (Const ''N'' (Val 42)))
   \<and> Symbols_Add [Some (SymConst (Const ''N'' (Val 7)))]
         (snd (Symbols_Add [Some (SymConst (Const ''N'' (Val (42::int))))] (MakeSymbols 0)))
     = (None, snd (Symbols_Add [Some (SymConst (Const ''N'' (Val (42::int))))] (MakeSymbols 0)))
   \<and> Symbols_inv (snd (Symbols_Add [Some (SymConst (Const ''N'' (Val (42::int))))] (MakeSymbols 0)))
   \<and> map_index
        (names (snd (Symbols_Add [Some (SymConst (Const ''N'' (Val (42::int))))] (MakeSymbols 0))))
        ''N''
     = Some 0"
proof -
  let ?s = "snd (Symbols_Add [Some (SymConst (Const ''N'' (Val (42::int))))] (MakeSymbols 0))"
  have h: "Symbols_Lookup ''N'' ?s = Inr (SymConst (Const ''N'' (Val 42)))"
    by (simp add: registry_eval)
  have k: "Symbols_inv ?s"
    by (rule inv_Add[OF inv_Make])
  have m: "map_index (names ?s) ''N'' = Some 0"
    by (simp add: registry_eval)
  from Add_first_wins[of "''N''" ?s "SymConst (Const ''N'' (Val 42))"
      "[Some (SymConst (Const ''N'' (Val 7))), None, Some (SymFunc (Func ''F'' Nil))]" 0] h k m
  show ?thesis by simp
qed

text \<open>
  C2. Every collection reached from \<open>MakeSymbols\<close> by a sequence of \<open>Add\<close>
  and \<open>Lookup\<close> calls satisfies the invariant (the map sends \<open>n\<close> to \<open>i\<close>
  exactly when the record at \<open>i\<close> is named \<open>n\<close>; no two records share a
  name), and \<open>Add\<close> preserves the invariant from any collection that has it,
  also when it panics at a nil argument.
\<close>

theorem inv_reachable:
  "Symbols_inv (run_ops ops (MakeSymbols capacity))
   \<and> (Symbols_inv syms \<longrightarrow> Symbols_inv (snd (Symbols_Add ss syms)))"
  by (simp add: run_ops_def inv_foldl inv_Make inv_Add)

theorem inv_reachable_witness:
  "Symbols_inv (run_ops [OpAdd [Some (SymConst (Const ''N'' (Val (42::int)))), None],
                         OpLookup ''N''] (MakeSymbols 0))
   \<and> Symbols_inv (MakeSymbols 0 :: int Symbols)
   \<and> Symbols_inv (snd (Symbols_Add [Some (SymConst (Const ''N'' (Val (42::int)))), None]
                          (MakeSymbols 0)))"
proof -
  have h: "Symbols_inv (MakeSymbols 0 :: int Symbols)"
    by (simp add: Symbols_inv_def MakeSymbols_def map_index_def)
  from inv_reachable[of "[OpAdd [Some (SymConst (Const ''N'' (Val (42::int)))), None],
                          OpLookup ''N'']" 0
      "MakeSymbols 0" "[Some (SymConst (Const ''N'' (Val (42::int)))), None]"] h
  show ?thesis by simp
qed

text \<open>
  C3. \<open>Of\<close> returns the stored package of a name and leaves the index as it
  is, or allocates a new package with that name and no symbols, stores it and
  returns it; a second call returns the same pointer; an entry, once stored,
  is never replaced. \<open>Lookup\<close> never changes the index; on an absent name it
  returns \<open>NotFound\<close> with that package name and no symbol name.
\<close>

theorem package_index:
  "(pkgs w name = Some p \<longrightarrow> Of name w = (p, w))
   \<and> (pkgs w name = None \<longrightarrow>
        fst (Of name w) = length (heap w)
        \<and> pkgs (snd (Of name w)) = (pkgs w)(name \<mapsto> fst (Of name w))
        \<and> heap (snd (Of name w)) =
            heap w @ [\<lparr>Package_Name = name, Package_Symbols = zero_Symbols\<rparr>]
        \<and> heap (snd (Of name w)) ! fst (Of name w) =
            \<lparr>Package_Name = name, Package_Symbols = zero_Symbols\<rparr>)
   \<and> Of name (snd (Of name w)) = (fst (Of name w), snd (Of name w))
   \<and> (pkgs w name = Some p \<longrightarrow> pkgs (snd (Of other w)) name = Some p)
   \<and> snd (Lookup name w) = w
   \<and> (pkgs w name = None \<longrightarrow>
        Lookup name w = (Inl (NotFoundErr \<lparr>Pkg = name, Sym = []\<rparr>), w))
   \<and> (pkgs w name = Some p \<longrightarrow> Lookup name w = (Inr p, w))"
proof -
  have a: "Of name (snd (Of name w)) = (fst (Of name w), snd (Of name w))"
    using Of_present[OF Of_stored] by simp
  have b: "pkgs (snd (Of other w)) name = Some p" if "pkgs w name = Some p"
    using that by (cases "pkgs w other") (auto simp: Of_present Of_absent)
  have c: "snd (Lookup name w) = w"
    by (simp add: Lookup_def Load_def split: option.splits)
  show ?thesis
    using a b c by (simp add: Of_present Of_absent Lookup_def Load_def)
qed

theorem package_index_witness:
  "Of ''a'' (\<lparr>pkgs = Map.empty, heap = []\<rparr> :: int world)
     = (0, \<lparr>pkgs = [''a'' \<mapsto> 0],
            heap = [\<lparr>Package_Name = ''a'', Package_Symbols = zero_Symbols\<rparr>]\<rparr>)
   \<and> Of ''a'' (snd (Of ''a'' (\<lparr>pkgs = Map.empty, heap = []\<rparr> :: int world)))
     = Of ''a'' (\<lparr>pkgs = Map.empty, heap = []\<rparr> :: int world)
   \<and> Lookup ''b'' (snd (Of ''a'' (\<lparr>pkgs = Map.empty, heap = []\<rparr> :: int world)))
     = (Inl (NotFoundErr \<lparr>Pkg = ''b'', Sym = []\<rparr>),
        snd (Of ''a'' (\<lparr>pkgs = Map.empty, heap = []\<rparr> :: int world)))
   \<and> Lookup ''a'' (snd (Of ''a'' (\<lparr>pkgs = Map.empty, heap = []\<rparr> :: int world)))
     = (Inr 0, snd (Of ''a'' (\<lparr>pkgs = Map.empty, heap = []\<rparr> :: int world)))"
proof -
  let ?w0 = "\<lparr>pkgs = Map.empty, heap = []\<rparr> :: int world"
  let ?w1 = "\<lparr>pkgs = [''a'' \<mapsto> 0],
              heap = [\<lparr>Package_Name = ''a'', Package_Symbols = zero_Symbols\<rparr>]\<rparr> :: int world"
  have h0: "pkgs ?w0 ''a'' = None" by simp
  have h1: "pkgs ?w1 ''a'' = Some 0" by simp
  have h2: "pkgs ?w1 ''b'' = None" by simp
  have e: "Of ''a'' ?w0 = (0, ?w1)"
    by (simp add: Of_def Load_def LoadOrStore_def)
  from package_index[of ?w0 "''a''" 0 "''a''"] package_index[of ?w1 "''a''" 0 "''a''"]
    package_index[of ?w1 "''b''" 0 "''a''"] h0 h1 h2 e
  show ?thesis by simp
qed

text \<open>
  C8. The message of a \<open>NotFound\<close> is never empty. With only the package name
  set it is the quoted package name between \<open>package\<close> and \<open>not found\<close>; with
  only the symbol name set it is the quoted symbol name between \<open>symbol\<close> and
  \<open>not found\<close>; with both set it names the package, then the symbol.
\<close>

theorem NotFound_message:
  "NotFound_Error q nf \<noteq> []
   \<and> (Pkg nf \<noteq> [] \<and> Sym nf = [] \<longrightarrow>
        NotFound_Error q nf = ''package '' @ q (Pkg nf) @ '': not found'')
   \<and> (Pkg nf = [] \<and> Sym nf \<noteq> [] \<longrightarrow>
        NotFound_Error q nf = ''symbol '' @ q (Sym nf) @ '': not found'')
   \<and> (Pkg nf \<noteq> [] \<and> Sym nf \<noteq> [] \<longrightarrow>
        NotFound_Error q nf =
          ''package '' @ q (Pkg nf) @ '': symbol '' @ q (Sym nf) @ '': not found'')"
  by (simp add: NotFound_Error_def Let_def)

theorem NotFound_message_witness:
  "NotFound_Error quote_plain \<lparr>Pkg = ''fmt'', Sym = []\<rparr> = ''package \"fmt\": not found''
   \<and> NotFound_Error quote_plain \<lparr>Pkg = [], Sym = ''Println''\<rparr>
       = ''symbol \"Println\": not found''
   \<and> NotFound_Error quote_plain \<lparr>Pkg = ''fmt'', Sym = ''Println''\<rparr>
       = ''package \"fmt\": symbol \"Println\": not found''"
  using NotFound_message[of quote_plain "\<lparr>Pkg = ''fmt'', Sym = []\<rparr>"]
    NotFound_message[of quote_plain "\<lparr>Pkg = [], Sym = ''Println''\<rparr>"]
    NotFound_message[of quote_plain "\<lparr>Pkg = ''fmt'', Sym = ''Println''\<rparr>"]
  by (simp add: quote_plain_def)




text \<open>
  C9, as amended. A constant built from a name and a value and added to a
  collection that has no record of that name is what \<open>Lookup\<close> of the name
  returns, and its \<open>Get\<close> is the value. For a \<open>Var\<close> whose address points to a
  variable and a non-nil value that the variable's type takes as it is,
  \<open>Set\<close> succeeds, \<open>Get\<close> then returns the value, the variable holds it, and
  no other variable changes. \<open>Set\<close> of nil, or of a value that the variable's
  type does not take, panics.
\<close>

theorem value_roundtrip:
  "(map_index (names syms) name = None \<longrightarrow>
      fst (Symbols_Add [Some (SymConst (MakeConst name c))] syms) = None
      \<and> Symbols_Lookup name (snd (Symbols_Add [Some (SymConst (MakeConst name c))] syms))
        = Inr (SymConst (MakeConst name c))
      \<and> Symbol_Get (SymConst (MakeConst name c)) = c)
   \<and> (Var_addr v = Pointer (Some a) \<and> val \<noteq> Nil \<and> assignTo (st a) val = Some val \<longrightarrow>
        (\<exists>st'. Var_Set v val st = Inr st' \<and> Var_Get v st' = Inr val \<and> content (st' a) = val
               \<and> (\<forall>b. b \<noteq> a \<longrightarrow> st' b = st b)))
   \<and> (Var_addr v = Pointer (Some a) \<and> (val = Nil \<or> assignTo (st a) val = None) \<longrightarrow>
        Var_Set v val st = Inl ReflectPanic)"
proof -
  have "Symbols_Lookup name (snd (Symbols_Add [Some (SymConst (MakeConst name c))] syms))
          = Inr (SymConst (MakeConst name c))"
    if "map_index (names syms) name = None"
    using Lookup_Add_fresh(1)[OF that, of "[SymConst (MakeConst name c)]" "SymConst (MakeConst name c)"]
    by (simp add: MakeConst_def)
  moreover have "fst (Symbols_Add [Some (SymConst (MakeConst name c))] syms) = None"
    using Add_no_panic[of "[SymConst (MakeConst name c)]" syms] by simp
  ultimately show ?thesis
    by (auto simp: MakeConst_def Var_Set_def Var_Get_def)
qed

theorem value_roundtrip_witness:
  "Symbols_Lookup ''N''
     (snd (Symbols_Add [Some (SymConst (MakeConst ''N'' (Val (Inl 42))))] (MakeSymbols 0)))
     = Inr (SymConst (MakeConst ''N'' (Val (Inl 42 :: int + string))))
   \<and> Symbol_Get (SymConst (MakeConst ''N'' (Val (Inl 42 :: int + string)))) = Val (Inl 42)
   \<and> (\<exists>st'. Var_Set (Var ''X'' (Pointer (Some 0))) (Val (Inl 5)) (\<lambda>_. int_var 1) = Inr st'
          \<and> Var_Get (Var ''X'' (Pointer (Some 0))) st' = Inr (Val (Inl 5))
          \<and> content (st' 0) = Val (Inl 5))
   \<and> Var_Set (Var ''X'' (Pointer (Some 0))) Nil (\<lambda>_. int_var 1) = Inl ReflectPanic"
proof -
  have h1: "map_index (names (MakeSymbols 0 :: (int + string) Symbols)) ''N'' = None"
    by (simp add: registry_eval)
  have h2: "Var_addr (Var ''X'' (Pointer (Some 0)) :: (int + string) Var) = Pointer (Some 0)
            \<and> Val (Inl 5) \<noteq> (Nil :: (int + string) iface)
            \<and> assignTo ((\<lambda>_. int_var 1) (0::nat)) (Val (Inl 5)) = Some (Val (Inl 5))"
    by (simp add: int_var_def)
  from value_roundtrip[of "MakeSymbols 0" "''N''" "Val (Inl 42)" "Var ''X'' (Pointer (Some 0))" 0
      "Val (Inl 5)" "\<lambda>_. int_var 1"]
    value_roundtrip[of "MakeSymbols 0" "''N''" "Val (Inl 42)" "Var ''X'' (Pointer (Some 0))" 0
      Nil "\<lambda>_. int_var 1"] h1 h2
  show ?thesis by auto
qed

text \<open>
  C9 as stated fails: on a variable of type int that holds 1, \<open>Set\<close> of a
  string panics, and \<open>Get\<close> still returns 1.
\<close>

theorem Var_Set_mismatch_counterexample:
  "Var_Set (Var ''X'' (Pointer (Some 0))) (Val (Inr ''hello'')) (\<lambda>_. int_var 1) = Inl ReflectPanic
   \<and> Var_Get (Var ''X'' (Pointer (Some 0))) (\<lambda>_. int_var 1) = Inr (Val (Inl 1))"
  by (simp add: Var_Set_def Var_Get_def int_var_def)

text \<open>
  C7. \<open>Const\<close>, \<open>Func\<close> and \<open>Type\<close> have the methods \<open>Name\<close> and \<open>Get\<close> and
  satisfy \<open>Symbol\<close>. \<open>Var\<close> has \<open>Get\<close> and \<open>Set\<close> but no \<open>Name\<close>: it does not
  satisfy \<open>Symbol\<close>, so a \<open>Var\<close> is not an argument of \<open>Add\<close>.
\<close>

theorem Var_not_Symbol:
  "satisfies ConstT Symbol_interface \<and> satisfies FuncT Symbol_interface
   \<and> satisfies TypeT Symbol_interface
   \<and> (''Get'', ''() interface{}'') \<in> set (method_set VarT)
   \<and> (''Set'', ''(val interface{})'') \<in> set (method_set VarT)
   \<and> ''Name'' \<notin> fst ` set (method_set VarT)
   \<and> \<not> satisfies VarT Symbol_interface"
  by (simp add: satisfies_def Symbol_interface_def)

section \<open>Verified properties of the scanner\<close>

subsection \<open>Auxiliary facts about the traversal and the sort\<close>

lemma keepsD: "keeps f h \<Longrightarrow> f n g = Inr r \<Longrightarrow> (\<forall>fd. n \<noteq> NFuncDecl fd) \<Longrightarrow> h (snd r) = h g"
  unfolding keeps_def by blast

lemma leave_keeps: "keeps f h \<Longrightarrow> leave f g = Inr g' \<Longrightarrow> h g' = h g"
  using keepsD[of f h NNil g] by (auto simp: leave_def split: sum.splits)

lemma visit_leaf_keeps: "keeps f h \<Longrightarrow> visit_leaf f (NNode n) g = Inr g' \<Longrightarrow> h g' = h g"
  using keepsD[of f h "NNode n" g] leave_keeps[of f h]
  by (auto simp: visit_leaf_def split: sum.splits if_splits)

lemma visit_idents_keeps: "keeps f h \<Longrightarrow> visit_idents f xs g = Inr g' \<Longrightarrow> h g' = h g"
proof (induction xs arbitrary: g)
  case Nil
  then show ?case by simp
next
  case (Cons x xs)
  from Cons.prems obtain g1 where g1: "visit_leaf f (NNode (Ident x)) g = Inr g1"
    and rest: "visit_idents f xs g1 = Inr g'" by (auto split: sum.splits)
  from visit_leaf_keeps[OF Cons.prems(1) g1] Cons.IH[OF Cons.prems(1) rest] show ?case by simp
qed

lemma walk_keeps:
  "keeps f h \<Longrightarrow> walk_Node f n g = Inr g' \<Longrightarrow> h g' = h g"
  "keeps f h \<Longrightarrow> walk_Nodes f ns g = Inr g' \<Longrightarrow> h g' = h g"
  "keeps f h \<Longrightarrow> walk_GenDecl f d g = Inr g' \<Longrightarrow> h g' = h g"
  "keeps f h \<Longrightarrow> walk_Spec f s g = Inr g' \<Longrightarrow> h g' = h g"
  "keeps f h \<Longrightarrow> walk_Specs f ss g = Inr g' \<Longrightarrow> h g' = h g"
proof (induction f n g and f ns g and f d g and f s g and f ss g
    arbitrary: g' and g' and g' and g' and g'
    rule: walk_Node_walk_Nodes_walk_GenDecl_walk_Spec_walk_Specs.induct)
  case (1 f x g)
  from visit_leaf_keeps[OF "1.prems"(1)] "1.prems"(2) show ?case by simp
next
  case (2 f x g)
  from visit_leaf_keeps[OF "2.prems"(1)] "2.prems"(2) show ?case by simp
next
  case (3 f d g)
  note lv = leave_keeps[OF "3.prems"(1)]
  from "3.prems"(2) obtain r where r: "f (NNode (DeclStmt d)) g = Inr r"
    by (auto split: sum.splits)
  from keepsD[OF "3.prems"(1) r] have hr: "h (snd r) = h g" by simp
  show ?case
  proof (cases "fst r")
    case True
    with r "3.prems"(2) obtain g1 where g1: "walk_GenDecl f d (snd r) = Inr g1"
      and l: "leave f g1 = Inr g'" by (auto split: sum.splits)
    from "3.IH"[OF r True "3.prems"(1) g1] lv[OF l] hr show ?thesis by simp
  next
    case False
    with r "3.prems"(2) hr show ?thesis by auto
  qed
next
  case (4 f ns g)
  note lv = leave_keeps[OF "4.prems"(1)]
  from "4.prems"(2) obtain r where r: "f (NNode (Other ns)) g = Inr r"
    by (auto split: sum.splits)
  from keepsD[OF "4.prems"(1) r] have hr: "h (snd r) = h g" by simp
  show ?case
  proof (cases "fst r")
    case True
    with r "4.prems"(2) obtain g1 where g1: "walk_Nodes f ns (snd r) = Inr g1"
      and l: "leave f g1 = Inr g'" by (auto split: sum.splits)
    from "4.IH"[OF r True "4.prems"(1) g1] lv[OF l] hr show ?thesis by simp
  next
    case False
    with r "4.prems"(2) hr show ?thesis by auto
  qed
next
  case (5 f g)
  then show ?case by simp
next
  case (6 f n ns g)
  from "6.prems"(2) obtain g1 where g1: "walk_Node f n g = Inr g1"
    and rest: "walk_Nodes f ns g1 = Inr g'" by (auto split: sum.splits)
  from "6.IH"(1)[OF "6.prems"(1) g1] "6.IH"(2)[OF g1 "6.prems"(1) rest] show ?case by simp
next
  case (7 f tok specs g)
  note lv = leave_keeps[OF "7.prems"(1)]
  from "7.prems"(2) obtain r where r: "f (NGenDecl (GenDecl tok specs)) g = Inr r"
    by (auto split: sum.splits)
  from keepsD[OF "7.prems"(1) r] have hr: "h (snd r) = h g" by simp
  show ?case
  proof (cases "fst r")
    case True
    with r "7.prems"(2) obtain g1 where g1: "walk_Specs f specs (snd r) = Inr g1"
      and l: "leave f g1 = Inr g'" by (auto split: sum.splits)
    from "7.IH"[OF r True "7.prems"(1) g1] lv[OF l] hr show ?thesis by simp
  next
    case False
    with r "7.prems"(2) hr show ?thesis by auto
  qed
next
  case (8 f nm path g)
  note lv = leave_keeps[OF "8.prems"(1)]
  note vl = visit_leaf_keeps[OF "8.prems"(1)]
  note vi = visit_idents_keeps[OF "8.prems"(1)]
  from "8.prems"(2) obtain r where r: "f (NSpec (ImportSpec nm path)) g = Inr r"
    by (auto split: sum.splits)
  from keepsD[OF "8.prems"(1) r] have hr: "h (snd r) = h g" by simp
  show ?case
  proof (cases "fst r")
    case True
    with r "8.prems"(2) obtain g1 g2 where
      g1: "visit_idents f (case nm of None \<Rightarrow> [] | Some x \<Rightarrow> [x]) (snd r) = Inr g1"
      and g2: "visit_leaf f (NNode (BasicLit path)) g1 = Inr g2"
      and l: "leave f g2 = Inr g'" by (auto split: sum.splits)
    from vi[OF g1] vl[OF g2] lv[OF l] hr show ?thesis by simp
  next
    case False
    with r "8.prems"(2) hr show ?thesis by auto
  qed
next
  case (9 f nm tp g)
  note lv = leave_keeps[OF "9.prems"(1)]
  note vl = visit_leaf_keeps[OF "9.prems"(1)]
  from "9.prems"(2) obtain r where r: "f (NSpec (TypeSpec nm tp)) g = Inr r"
    by (auto split: sum.splits)
  from keepsD[OF "9.prems"(1) r] have hr: "h (snd r) = h g" by simp
  show ?case
  proof (cases "fst r")
    case True
    with r "9.prems"(2) obtain g1 g2 where
      g1: "visit_leaf f (NNode (Ident nm)) (snd r) = Inr g1"
      and g2: "walk_Node f tp g1 = Inr g2"
      and l: "leave f g2 = Inr g'" by (auto split: sum.splits)
    from vl[OF g1] "9.IH"[OF r True g1 "9.prems"(1) g2] lv[OF l] hr show ?thesis by simp
  next
    case False
    with r "9.prems"(2) hr show ?thesis by auto
  qed
next
  case (10 f nms tp vals g)
  note lv = leave_keeps[OF "10.prems"(1)]
  note vi = visit_idents_keeps[OF "10.prems"(1)]
  from "10.prems"(2) obtain r where r: "f (NSpec (ValueSpec nms tp vals)) g = Inr r"
    by (auto split: sum.splits)
  from keepsD[OF "10.prems"(1) r] have hr: "h (snd r) = h g" by simp
  show ?case
  proof (cases "fst r")
    case True
    with r "10.prems"(2) obtain g1 g2 g3 where
      g1: "visit_idents f nms (snd r) = Inr g1"
      and g2: "(case tp of None \<Rightarrow> Inr g1 | Some t \<Rightarrow> walk_Node f t g1) = Inr g2"
      and g3: "walk_Nodes f vals g2 = Inr g3"
      and l: "leave f g3 = Inr g'" by (auto split: sum.splits)
    have h2: "h g2 = h g1"
    proof (cases tp)
      case None
      with g2 show ?thesis by simp
    next
      case (Some t)
      with g2 have "walk_Node f t g1 = Inr g2" by simp
      from "10.IH"(1)[OF r True g1 Some "10.prems"(1) this] show ?thesis .
    qed
    from "10.IH"(2)[OF r True g1 g2 "10.prems"(1) g3] vi[OF g1] h2 lv[OF l] hr
    show ?thesis by simp
  next
    case False
    with r "10.prems"(2) hr show ?thesis by auto
  qed
next
  case (11 f g)
  then show ?case by simp
next
  case (12 f s ss g)
  from "12.prems"(2) obtain g1 where g1: "walk_Spec f s g = Inr g1"
    and rest: "walk_Specs f ss g1 = Inr g'" by (auto split: sum.splits)
  from "12.IH"(1)[OF "12.prems"(1) g1] "12.IH"(2)[OF g1 "12.prems"(1) rest] show ?case by simp
qed


lemma funcs_of_append:
  "funcs_of (g\<lparr>decls := decls g @ [d]\<rparr>) = funcs_of g @ (if is_func d then [d] else [])"
  by (simp add: funcs_of_def)

lemma inspect_types_funcs: "inspect_types L ss g = Inr g' \<Longrightarrow> funcs_of g' = funcs_of g"
proof (induction L ss g rule: inspect_types.induct)
  case (1 L g)
  then show ?case by simp
next
  case (2 L nm tp ss g)
  then show ?case
    by (auto simp: funcs_of_append is_func_def typeDecl_def funcDecl_def split: if_splits)
qed simp_all

lemma inspect_names_funcs:
  "kind \<noteq> funcDecl \<Longrightarrow> inspect_names L kind tp vals i nms g = Inr g' \<Longrightarrow> funcs_of g' = funcs_of g"
proof (induction L kind tp vals i nms g rule: inspect_names.induct)
  case (1 L kind tp vals i g)
  then show ?case by simp
next
  case (2 L kind tp vals i nm nms g)
  then show ?case
    by (auto simp: funcs_of_append is_func_def split: if_splits sum.splits option.splits)
qed

lemma inspect_values_funcs:
  "kind \<noteq> funcDecl \<Longrightarrow> inspect_values L kind ss g = Inr g' \<Longrightarrow> funcs_of g' = funcs_of g"
proof (induction L kind ss g rule: inspect_values.induct)
  case (1 L kind g)
  then show ?case by simp
next
  case (2 L kind nms tp vals ss g)
  then show ?case
    by (auto split: sum.splits dest: inspect_names_funcs)
qed simp_all

lemma inspect_keeps_funcs: "keeps (inspect L) funcs_of"
proof -
  have "funcs_of (snd r) = funcs_of g"
    if "inspect L n g = Inr r" "\<forall>fd. n \<noteq> NFuncDecl fd" for n g r
  proof (cases n)
    case (NGenDecl d)
    show ?thesis
    proof (cases "Tok d")
      case token_IMPORT
      with NGenDecl that show ?thesis by auto
    next
      case token_CONST
      with NGenDecl that show ?thesis
        by (auto simp: constDecl_def funcDecl_def badDecl_def split: sum.splits
            dest!: inspect_values_funcs[rotated])
    next
      case token_TYPE
      with NGenDecl that show ?thesis
        by (auto split: sum.splits dest: inspect_types_funcs)
    next
      case token_VAR
      with NGenDecl that show ?thesis
        by (auto simp: varDecl_def funcDecl_def badDecl_def split: sum.splits
            dest!: inspect_values_funcs[rotated])
    qed
  qed (use that in auto)
  then show ?thesis unfolding keeps_def by blast
qed

lemma walk_FuncDecl_funcs:
  assumes "walk_FuncDecl (inspect L) fd g = Inr g'"
  shows "funcs_of g' = funcs_of g @ toplevel_func L (DFunc fd)"
proof (cases "Recv fd = None \<and> IsExported L (Name fd)")
  case True
  with assms show ?thesis
    by (auto simp: walk_FuncDecl_def funcs_of_append is_func_def)
next
  case False
  note k = inspect_keeps_funcs[of L]
  from False have r: "inspect L (NFuncDecl fd) g = Inr (True, g)" by auto
  with assms obtain g1 g2 g3 g4 where
    g1: "(case Recv fd of None \<Rightarrow> Inr g | Some rc \<Rightarrow> walk_Node (inspect L) rc g) = Inr g1"
    and g2: "visit_leaf (inspect L) (NNode (Ident (Name fd))) g1 = Inr g2"
    and g3: "walk_Node (inspect L) (FuncType fd) g2 = Inr g3"
    and g4: "(case Body fd of None \<Rightarrow> Inr g3 | Some b \<Rightarrow> walk_Node (inspect L) b g3) = Inr g4"
    and l: "leave (inspect L) g4 = Inr g'"
    unfolding walk_FuncDecl_def by (auto split: sum.splits cong: option.case_cong)
  have h1: "funcs_of g1 = funcs_of g"
    using g1 walk_keeps(1)[OF k] by (cases "Recv fd") auto
  have h4: "funcs_of g4 = funcs_of g3"
    using g4 walk_keeps(1)[OF k] by (cases "Body fd") auto
  from h1 h4 visit_leaf_keeps[OF k g2] walk_keeps(1)[OF k g3] leave_keeps[OF k l] False
  show ?thesis by auto
qed

lemma walk_Decls_funcs:
  "walk_Decls (inspect L) ds g = Inr g' \<Longrightarrow>
   funcs_of g' = funcs_of g @ concat (map (toplevel_func L) ds)"
proof (induction ds arbitrary: g)
  case Nil
  then show ?case by simp
next
  case (Cons d ds)
  from Cons.prems obtain g1 where g1: "walk_Decl (inspect L) d g = Inr g1"
    and rest: "walk_Decls (inspect L) ds g1 = Inr g'" by (auto split: sum.splits)
  have "funcs_of g1 = funcs_of g @ toplevel_func L d"
  proof (cases d)
    case (DGen x)
    with g1 walk_keeps(3)[OF inspect_keeps_funcs] show ?thesis by auto
  next
    case (DFunc fd)
    with g1 walk_FuncDecl_funcs show ?thesis by auto
  qed
  with Cons.IH[OF rest] show ?case by simp
qed

lemma Inspect_funcs:
  assumes "Inspect f (inspect L) g = Inr g'"
  shows "funcs_of g' = funcs_of g @ concat (map (toplevel_func L) (file_decls f))"
proof -
  note k = inspect_keeps_funcs[of L]
  obtain nm ds where f: "f = File nm ds" by (cases f)
  with assms obtain g1 g2 where
    g1: "visit_leaf (inspect L) (NNode (Ident nm)) g = Inr g1"
    and g2: "walk_Decls (inspect L) ds g1 = Inr g2"
    and l: "leave (inspect L) g2 = Inr g'" by (auto split: sum.splits)
  from visit_leaf_keeps[OF k g1] walk_Decls_funcs[OF g2] leave_keeps[OF k l] f
  show ?thesis by simp
qed

lemma generate_files_funcs:
  "generate_files L fs g = Inr g' \<Longrightarrow> funcs_of g' = funcs_of g @ toplevel_funcs L fs"
proof (induction fs arbitrary: g)
  case Nil
  then show ?case by (simp add: toplevel_funcs_def)
next
  case (Cons f fs)
  from Cons.prems obtain g1 where g1: "Inspect f (inspect L) g = Inr g1"
    and rest: "generate_files L fs g1 = Inr g'" by (auto split: sum.splits)
  from Inspect_funcs[OF g1] Cons.IH[OF rest] show ?case by (simp add: toplevel_funcs_def)
qed

lemma mset_insert_by: "mset (insert_by lt x xs) = add_mset x (mset xs)"
  by (induction xs) auto

lemma mset_sort_Slice: "mset (sort_Slice lt xs) = mset xs"
  by (induction xs) (auto simp: sort_Slice_def mset_insert_by)

lemma decl_less_iff:
  "decl_less a b \<longleftrightarrow>
     decl_kind a < decl_kind b \<or> (decl_kind a = decl_kind b \<and> decl_Name a < decl_Name b)"
  by (auto simp: decl_less_def strings_Compare_def Let_def)

lemma decl_le_trans: "decl_le a b \<Longrightarrow> decl_le b c \<Longrightarrow> decl_le a c"
  by (auto simp: decl_le_def)

lemma not_less_le: "\<not> decl_less a b \<Longrightarrow> decl_le b a"
  by (auto simp: decl_less_iff decl_le_def)

lemma less_le: "decl_less a b \<Longrightarrow> decl_le a b"
  by (auto simp: decl_less_iff decl_le_def)

lemma set_insert_by: "set (insert_by lt x xs) = insert x (set xs)"
  by (induction xs) auto

lemma sorted_insert_by:
  "sorted_wrt decl_le xs \<Longrightarrow> sorted_wrt decl_le (insert_by decl_less x xs)"
proof (induction xs)
  case Nil
  then show ?case by simp
next
  case (Cons y ys)
  show ?case
  proof (cases "decl_less y x")
    case False
    with Cons.prems show ?thesis
      by (auto dest: not_less_le decl_le_trans)
  next
    case True
    with Cons show ?thesis
      by (auto simp: set_insert_by dest: less_le)
  qed
qed

lemma sorted_sort_Slice: "sorted_wrt decl_le (sort_Slice decl_less xs)"
  by (induction xs) (auto simp: sort_Slice_def sorted_insert_by)

lemmas scan_eval =
  main_decls_def generate_def legacy_main_decls_def legacy_generate_def
  walk_FuncDecl_def visit_leaf_def leave_def sort_Slice_def ascii_lib_def Let_def
  decl_less_def strings_Compare_def
  badDecl_def constDecl_def typeDecl_def funcDecl_def varDecl_def


subsection \<open>Main results\<close>

text \<open>
  C4. On the fragment the scanner returns exactly three descriptors: the
  constant \<open>Pi\<close>, the type \<open>Shape\<close> and the function \<open>Area\<close>, none for the
  method \<open>Name\<close>. On every package, the Function descriptors of the result
  are those of the package-scope function declarations without a receiver and
  with an exported name, one each.
\<close>

theorem scanner_classification:
  "main_decls ascii_lib \<lparr>pkg_Name = ''shapes'', Syntax = [shapes_fragment]\<rparr> omit
     = Inr [\<lparr>decl_kind = constDecl, decl_Name = ''Pi'', decl_Type = ''3''\<rparr>,
            \<lparr>decl_kind = typeDecl, decl_Name = ''Shape'', decl_Type = []\<rparr>,
            \<lparr>decl_kind = funcDecl, decl_Name = ''Area'', decl_Type = []\<rparr>]
   \<and> (main_decls L pkg omitPrefix = Inr ds \<longrightarrow>
        mset (filter is_func ds) = mset (toplevel_funcs L (Syntax pkg)))"
proof -
  have a: "main_decls ascii_lib \<lparr>pkg_Name = ''shapes'', Syntax = [shapes_fragment]\<rparr> omit
     = Inr [\<lparr>decl_kind = constDecl, decl_Name = ''Pi'', decl_Type = ''3''\<rparr>,
            \<lparr>decl_kind = typeDecl, decl_Name = ''Shape'', decl_Type = []\<rparr>,
            \<lparr>decl_kind = funcDecl, decl_Name = ''Area'', decl_Type = []\<rparr>]"
    by (simp add: shapes_fragment_def scan_eval)
  have b: "mset (filter is_func ds) = mset (toplevel_funcs L (Syntax pkg))"
    if assms: "main_decls L pkg omitPrefix = Inr ds"
  proof -
    from assms obtain g where g: "generate L pkg omitPrefix \<lparr>decls = [], prefix = []\<rparr> = Inr g"
      and ds: "ds = sort_Slice decl_less (decls g)"
      by (auto simp: main_decls_def split: sum.splits)
    from g have "funcs_of g = toplevel_funcs L (Syntax pkg)"
      using generate_files_funcs[of L "Syntax pkg" _ g]
      by (auto simp: generate_def funcs_of_def Let_def split: if_splits)
    then have "mset (toplevel_funcs L (Syntax pkg)) = mset (filter is_func (decls g))"
      by (simp only: funcs_of_def)
    also have "\<dots> = filter_mset is_func (mset (sort_Slice decl_less (decls g)))"
      by (simp add: mset_sort_Slice)
    also have "\<dots> = mset (filter is_func ds)"
      by (simp add: ds)
    finally show ?thesis by simp
  qed

  from a b show ?thesis by blast
qed

theorem scanner_classification_witness:
  "main_decls ascii_lib \<lparr>pkg_Name = ''shapes'', Syntax = [shapes_fragment]\<rparr> True
     = Inr [\<lparr>decl_kind = constDecl, decl_Name = ''Pi'', decl_Type = ''3''\<rparr>,
            \<lparr>decl_kind = typeDecl, decl_Name = ''Shape'', decl_Type = []\<rparr>,
            \<lparr>decl_kind = funcDecl, decl_Name = ''Area'', decl_Type = []\<rparr>]
   \<and> mset (filter is_func
        [\<lparr>decl_kind = constDecl, decl_Name = ''Pi'', decl_Type = ''3''\<rparr>,
         \<lparr>decl_kind = typeDecl, decl_Name = ''Shape'', decl_Type = []\<rparr>,
         \<lparr>decl_kind = funcDecl, decl_Name = ''Area'', decl_Type = []\<rparr>])
       = mset (toplevel_funcs ascii_lib [shapes_fragment])
   \<and> toplevel_funcs ascii_lib [shapes_fragment]
       = [\<lparr>decl_kind = funcDecl, decl_Name = ''Area'', decl_Type = []\<rparr>]"
proof -
  have t: "toplevel_funcs ascii_lib [shapes_fragment]
       = [\<lparr>decl_kind = funcDecl, decl_Name = ''Area'', decl_Type = []\<rparr>]"
    by (simp add: toplevel_funcs_def shapes_fragment_def ascii_lib_def)
  from scanner_classification[of True ascii_lib
      "\<lparr>pkg_Name = ''shapes'', Syntax = [shapes_fragment]\<rparr>" True
      "[\<lparr>decl_kind = constDecl, decl_Name = ''Pi'', decl_Type = ''3''\<rparr>,
        \<lparr>decl_kind = typeDecl, decl_Name = ''Shape'', decl_Type = []\<rparr>,
        \<lparr>decl_kind = funcDecl, decl_Name = ''Area'', decl_Type = []\<rparr>]"] t
  show ?thesis by simp
qed

text \<open>
  C5. The traversal does descend into the body of a method and of an
  unexported function: a const declared in the body of the method \<open>Name\<close> and
  a type declared in the body of \<open>helper\<close>, both with capitalised names, yield
  descriptors, in the generator and in the earlier generator alike.
\<close>

theorem nested_scope_descent:
  "main_decls ascii_lib \<lparr>pkg_Name = ''shapes'', Syntax = [nested_scopes]\<rparr> omit
     = Inr [\<lparr>decl_kind = constDecl, decl_Name = ''Local'', decl_Type = ''1''\<rparr>,
            \<lparr>decl_kind = typeDecl, decl_Name = ''Inner'', decl_Type = []\<rparr>]
   \<and> legacy_main_decls ascii_lib \<lparr>pkg_Name = ''shapes'', Syntax = [nested_scopes]\<rparr> nm
     = Inr [\<lparr>legacy_Kind = ''Const'', legacy_Name = ''Local'', legacy_Type = ''1''\<rparr>,
            \<lparr>legacy_Kind = ''Type'', legacy_Name = ''Inner'', legacy_Type = []\<rparr>]"
  by (simp add: nested_scopes_def scan_eval)

text \<open>
  C6, as amended. The list that \<open>main\<close> of the generator builds is sorted by
  kind ascending (Const, Type, Func, Var) and by name ascending within a kind,
  and it is a rearrangement of the descriptors found by the traversal. The
  earlier generator does not sort: its list is the list of the traversal.
\<close>

theorem sorted_descriptors:
  "(main_decls L pkg omitPrefix = Inr ds \<longrightarrow>
      sorted_wrt decl_le ds
      \<and> (\<exists>g. generate L pkg omitPrefix \<lparr>decls = [], prefix = []\<rparr> = Inr g
              \<and> mset ds = mset (decls g)))
   \<and> (legacy_main_decls L pkg pkgname = Inr lds \<longrightarrow>
        (\<exists>g. legacy_generate L pkg pkgname \<lparr>legacy_decls = [], legacy_prefix = []\<rparr> = Inr g
              \<and> lds = legacy_decls g))"
  by (auto simp: main_decls_def legacy_main_decls_def sorted_sort_Slice mset_sort_Slice
      split: sum.splits)

theorem sorted_descriptors_witness:
  "main_decls ascii_lib \<lparr>pkg_Name = ''p'', Syntax = [two_funcs]\<rparr> True
     = Inr [\<lparr>decl_kind = funcDecl, decl_Name = ''A'', decl_Type = []\<rparr>,
            \<lparr>decl_kind = funcDecl, decl_Name = ''B'', decl_Type = []\<rparr>]
   \<and> sorted_wrt decl_le
        [\<lparr>decl_kind = funcDecl, decl_Name = ''A'', decl_Type = []\<rparr>,
         \<lparr>decl_kind = funcDecl, decl_Name = ''B'', decl_Type = []\<rparr>]
   \<and> legacy_main_decls ascii_lib \<lparr>pkg_Name = ''p'', Syntax = [two_funcs]\<rparr> ''p''
     = Inr [\<lparr>legacy_Kind = ''Func'', legacy_Name = ''B'', legacy_Type = []\<rparr>,
            \<lparr>legacy_Kind = ''Func'', legacy_Name = ''A'', legacy_Type = []\<rparr>]"
proof -
  have h: "main_decls ascii_lib \<lparr>pkg_Name = ''p'', Syntax = [two_funcs]\<rparr> True
     = Inr [\<lparr>decl_kind = funcDecl, decl_Name = ''A'', decl_Type = []\<rparr>,
            \<lparr>decl_kind = funcDecl, decl_Name = ''B'', decl_Type = []\<rparr>]"
    by (simp add: two_funcs_def scan_eval)
  have l: "legacy_main_decls ascii_lib \<lparr>pkg_Name = ''p'', Syntax = [two_funcs]\<rparr> ''p''
     = Inr [\<lparr>legacy_Kind = ''Func'', legacy_Name = ''B'', legacy_Type = []\<rparr>,
            \<lparr>legacy_Kind = ''Func'', legacy_Name = ''A'', legacy_Type = []\<rparr>]"
    by (simp add: two_funcs_def scan_eval)
  from sorted_descriptors[of ascii_lib "\<lparr>pkg_Name = ''p'', Syntax = [two_funcs]\<rparr>" True
      "[\<lparr>decl_kind = funcDecl, decl_Name = ''A'', decl_Type = []\<rparr>,
        \<lparr>decl_kind = funcDecl, decl_Name = ''B'', decl_Type = []\<rparr>]" "''p''"
      "[\<lparr>legacy_Kind = ''Func'', legacy_Name = ''B'', legacy_Type = []\<rparr>,
        \<lparr>legacy_Kind = ''Func'', legacy_Name = ''A'', legacy_Type = []\<rparr>]"] h l
  show ?thesis by simp
qed

text \<open>
  C6 as stated fails on the earlier generator: for \<open>func B()\<close> followed by
  \<open>func A()\<close> its list is B, A, two descriptors of one kind with the names
  descending.
\<close>

theorem legacy_unsorted_counterexample:
  "legacy_main_decls ascii_lib \<lparr>pkg_Name = ''p'', Syntax = [two_funcs]\<rparr> ''p''
     = Inr [\<lparr>legacy_Kind = ''Func'', legacy_Name = ''B'', legacy_Type = []\<rparr>,
            \<lparr>legacy_Kind = ''Func'', legacy_Name = ''A'', legacy_Type = []\<rparr>]
   \<and> \<not> sorted_wrt legacy_le
         [\<lparr>legacy_Kind = ''Func'', legacy_Name = ''B'', legacy_Type = []\<rparr>,
          \<lparr>legacy_Kind = ''Func'', legacy_Name = ''A'', legacy_Type = []\<rparr>]"
  by (simp add: two_funcs_def scan_eval legacy_le_def)

end
